theory Spec2Isabelle
  imports Main
begin

section \<open>Strings\<close>

text \<open>
  A JavaScript string is a sequence of UTF-16 code units, and \<open>length\<close>, \<open>slice\<close>, the
  regular expressions (none has the \<open>u\<close> flag) and \<open>trim\<close> all work on code units. A
  string is therefore modelled as the list of its code units, each a natural number.
  \<open>js\<close> turns an ASCII literal into such a list.
\<close>

type_synonym jsstring = "nat list"

definition js :: "string \<Rightarrow> jsstring" where
  "js s = map of_char s"

text \<open>The character classes of the regular expressions in \<open>App.jsx\<close>.\<close>

definition isWS :: "nat \<Rightarrow> bool" where
  \<comment> \<open>\<open>\s\<close>, and what \<open>trim\<close> removes: WhiteSpace and LineTerminator of ECMAScript\<close>
  "isWS c \<longleftrightarrow>
     c = 0x09 \<or> c = 0x0A \<or> c = 0x0B \<or> c = 0x0C \<or> c = 0x0D \<or> c = 0x20 \<or> c = 0xA0 \<or>
     c = 0x1680 \<or> (0x2000 \<le> c \<and> c \<le> 0x200A) \<or> c = 0x2028 \<or> c = 0x2029 \<or>
     c = 0x202F \<or> c = 0x205F \<or> c = 0x3000 \<or> c = 0xFEFF"

definition isTabSpace :: "nat \<Rightarrow> bool" where
  \<comment> \<open>\<open>[\t ]\<close>\<close>
  "isTabSpace c \<longleftrightarrow> c = 0x09 \<or> c = 0x20"

definition isNL :: "nat \<Rightarrow> bool" where
  \<comment> \<open>\<open>\n\<close>\<close>
  "isNL c \<longleftrightarrow> c = 0x0A"

definition isDigit :: "nat \<Rightarrow> bool" where
  \<comment> \<open>\<open>\d\<close>\<close>
  "isDigit c \<longleftrightarrow> 0x30 \<le> c \<and> c \<le> 0x39"

definition isUpper :: "nat \<Rightarrow> bool" where
  \<comment> \<open>\<open>[A-Z]\<close>\<close>
  "isUpper c \<longleftrightarrow> 0x41 \<le> c \<and> c \<le> 0x5A"

definition isLower :: "nat \<Rightarrow> bool" where
  \<comment> \<open>\<open>[a-z]\<close>\<close>
  "isLower c \<longleftrightarrow> 0x61 \<le> c \<and> c \<le> 0x7A"

definition isPunct :: "nat \<Rightarrow> bool" where
  \<comment> \<open>\<open>[.!?]\<close>\<close>
  "isPunct c \<longleftrightarrow> c = 0x2E \<or> c = 0x21 \<or> c = 0x3F"

definition isTokenChar :: "nat \<Rightarrow> bool" where
  \<comment> \<open>\<open>[a-z0-9\s-]\<close> under the \<open>i\<close> flag: without the \<open>u\<close> flag a code unit above 127 is
      never folded onto an ASCII letter, so the flag adds \<open>A-Z\<close> and nothing else\<close>
  "isTokenChar c \<longleftrightarrow> isLower c \<or> isUpper c \<or> isDigit c \<or> isWS c \<or> c = 0x2D"

definition isHeadingChar :: "nat \<Rightarrow> bool" where
  \<comment> \<open>\<open>[A-Za-z0-9\s\-]\<close>\<close>
  "isHeadingChar c \<longleftrightarrow> isUpper c \<or> isLower c \<or> isDigit c \<or> isWS c \<or> c = 0x2D"

definition isTitlePrefix :: "nat \<Rightarrow> bool" where
  \<comment> \<open>\<open>[\-\<bullet>\d.\s]\<close>, the bullet being U+2022\<close>
  "isTitlePrefix c \<longleftrightarrow> c = 0x2D \<or> c = 0x2022 \<or> isDigit c \<or> c = 0x2E \<or> isWS c"

section \<open>String operations of the runtime\<close>

definition trim :: "jsstring \<Rightarrow> jsstring" where
  "trim s = rev (dropWhile isWS (rev (dropWhile isWS s)))"

definition join :: "jsstring \<Rightarrow> jsstring list \<Rightarrow> jsstring" where
  \<comment> \<open>\<open>xs.join(sep)\<close>\<close>
  "join sep xs = (case xs of [] \<Rightarrow> [] | y # ys \<Rightarrow> y @ concat (map (\<lambda>z. sep @ z) ys))"

text \<open>
  \<open>s.replace(/[C]+/g, r)\<close> for a character class \<open>C\<close>: scanning from the left, a position
  holding a code unit of the class starts a match, which is greedy and takes the whole
  run; the run is replaced by \<open>r\<close> and the scan goes on after it.
\<close>

function replaceRuns :: "(nat \<Rightarrow> bool) \<Rightarrow> jsstring \<Rightarrow> jsstring \<Rightarrow> jsstring" where
  "replaceRuns C r [] = []"
| "replaceRuns C r (c # cs) =
     (if C c then r @ replaceRuns C r (dropWhile C cs) else c # replaceRuns C r cs)"
  by pat_completeness auto
termination
  by (relation "measure (\<lambda>(C, r, s). length s)") (auto simp: less_Suc_eq_le length_dropWhile_le)

text \<open>
  \<open>s.replace(/\n{3,}/g, "\n\n")\<close>: a match starts where three newlines stand in a row and
  takes every newline that follows.
\<close>

function (sequential) replaceNewlines3 :: "jsstring \<Rightarrow> jsstring" where
  "replaceNewlines3 (a # b # c # cs) =
     (if isNL a \<and> isNL b \<and> isNL c then [0x0A, 0x0A] @ replaceNewlines3 (dropWhile isNL cs)
      else a # replaceNewlines3 (b # c # cs))"
| "replaceNewlines3 cs = cs"
  by pat_completeness auto
termination
  by (relation "measure length") (auto simp: less_Suc_eq_le le_SucI length_dropWhile_le)

text \<open>
  \<open>s.split(/[C]+/)\<close>: every run of the class is a separator; a run at the start leaves an
  empty first piece, a run at the end an empty last piece, and the empty string splits
  into one empty piece. \<open>cur\<close> is the piece being read.
\<close>

function splitRunsFrom :: "(nat \<Rightarrow> bool) \<Rightarrow> jsstring \<Rightarrow> jsstring \<Rightarrow> jsstring list" where
  "splitRunsFrom C cur [] = [cur]"
| "splitRunsFrom C cur (c # cs) =
     (if C c then cur # splitRunsFrom C [] (dropWhile C cs)
      else splitRunsFrom C (cur @ [c]) cs)"
  by pat_completeness auto
termination
  by (relation "measure (\<lambda>(C, cur, s). length s)") (auto simp: less_Suc_eq_le length_dropWhile_le)

definition splitRuns :: "(nat \<Rightarrow> bool) \<Rightarrow> jsstring \<Rightarrow> jsstring list" where
  "splitRuns C s = splitRunsFrom C [] s"

text \<open>
  \<open>s.split(/(?<=[.!?])\s+/)\<close>: a separator is a run of white space whose predecessor is
  one of \<open>.!?\<close>. \<open>prev\<close> is the code unit before the position (\<open>None\<close> at the start). The
  match is greedy, so after a separator the scan stands on a code unit that is not white
  space, or at the end.
\<close>

function splitSentencesFrom :: "jsstring \<Rightarrow> nat option \<Rightarrow> jsstring \<Rightarrow> jsstring list" where
  "splitSentencesFrom cur prev [] = [cur]"
| "splitSentencesFrom cur prev (c # cs) =
     (if isWS c \<and> (case prev of None \<Rightarrow> False | Some p \<Rightarrow> isPunct p)
      then cur # splitSentencesFrom [] (Some c) (dropWhile isWS cs)
      else splitSentencesFrom (cur @ [c]) (Some c) cs)"
  by pat_completeness auto
termination
  by (relation "measure (\<lambda>(cur, prev, s). length s)") (auto simp: less_Suc_eq_le length_dropWhile_le)

text \<open>
  \<open>toLowerCase\<close> and \<open>toUpperCase\<close>. On ASCII they change the letters only. Outside ASCII
  the Unicode tables of the runtime decide; two code units have a lower case that is an
  ASCII letter (U+0130, whose lower case is \<open>i\<close> and U+0307, and the Kelvin sign U+212A,
  whose lower case is \<open>k\<close>) and are written out. The lower case of any other code unit
  above 127 is again above 127 and not white space; the model leaves such a unit as it
  is. \<open>tokenize\<close>, the only caller, replaces it by a space in its next step either way.
  \<open>toUpperCase\<close> is only applied to the first code unit of a token, which is ASCII.
\<close>

definition lowerUnit :: "nat \<Rightarrow> jsstring" where
  "lowerUnit c =
     (if isUpper c then [c + 0x20]
      else if c = 0x130 then [0x69, 0x307]
      else if c = 0x212A then [0x6B]
      else [c])"

definition toLowerCase :: "jsstring \<Rightarrow> jsstring" where
  "toLowerCase s = concat (map lowerUnit s)"

definition toUpperCase :: "jsstring \<Rightarrow> jsstring" where
  "toUpperCase s = map (\<lambda>c. if isLower c then c - 0x20 else c) s"

text \<open>
  \<open>xs.slice(0, e)\<close> for an integer \<open>e\<close>: a negative end counts from the end of the array.
\<close>

definition slice0 :: "'a list \<Rightarrow> int \<Rightarrow> 'a list" where
  "slice0 xs e = (if e < 0 then take (nat (int (length xs) + e)) xs else take (nat e) xs)"

text \<open>
  \<open>xs.sort(cmp)\<close>. The sort of the language is stable, and \<open>cmp a b \<le> 0\<close> leaves \<open>a\<close>
  before \<open>b\<close>; stable insertion sort is taken as the algorithm.
\<close>

fun insertBy :: "('a \<Rightarrow> 'a \<Rightarrow> int) \<Rightarrow> 'a \<Rightarrow> 'a list \<Rightarrow> 'a list" where
  "insertBy cmp x [] = [x]"
| "insertBy cmp x (y # ys) = (if cmp x y \<le> 0 then x # y # ys else y # insertBy cmp x ys)"

definition sortBy :: "('a \<Rightarrow> 'a \<Rightarrow> int) \<Rightarrow> 'a list \<Rightarrow> 'a list" where
  "sortBy cmp xs = foldr (insertBy cmp) xs []"

text \<open>
  A \<open>Map\<close> keeps its entries in the order in which their keys were first set: it is an
  association list, \<open>get\<close> is \<open>map_of\<close>, and \<open>set\<close> overwrites the value of a key in place or
  appends a new entry.
\<close>

fun mapSet :: "('k \<times> 'v) list \<Rightarrow> 'k \<Rightarrow> 'v \<Rightarrow> ('k \<times> 'v) list" where
  "mapSet [] k v = [(k, v)]"
| "mapSet ((k', v') # m) k v = (if k' = k then (k', v) # m else (k', v') # mapSet m k v)"

section \<open>The helpers of App.jsx\<close>

definition cleanText :: "jsstring \<Rightarrow> jsstring" where
  "cleanText t =
     trim (replaceNewlines3 (replaceRuns isTabSpace (js '' '')
       (map (\<lambda>c. if c = 0xA0 then 0x20 else c) t)))"

definition sentenceSplit :: "jsstring \<Rightarrow> jsstring list" where
  "sentenceSplit t =
     filter (\<lambda>s. s \<noteq> [] \<and> 2 < length s)
       (splitSentencesFrom [] None (replaceRuns isWS (js '' '') (cleanText t)))"

definition STOPWORDS :: "jsstring set" where
  "STOPWORDS = set (splitRuns isWS (js
     ''the a an and or of to in is are was were be been for with on at by from as that this these those into over under about after before between within without using use used than more most very much many can could should would may might not no yes if then when where how what who which also etc data info page slide figure table section chapter article''))"

definition tokenize :: "jsstring \<Rightarrow> jsstring list" where
  "tokenize t =
     filter (\<lambda>w. 2 < length w \<and> w \<notin> STOPWORDS)
       (splitRuns isWS
         (map (\<lambda>c. if isTokenChar c then c else 0x20) (toLowerCase (cleanText t))))"

definition countTokens :: "jsstring list \<Rightarrow> (jsstring \<times> nat) list" where
  \<comment> \<open>the loop \<open>for (const w of ...) freq.set(w, (freq.get(w) || 0) + 1)\<close>\<close>
  "countTokens ws =
     foldl (\<lambda>freq w. mapSet freq w ((case map_of freq w of None \<Rightarrow> 0 | Some n \<Rightarrow> n) + 1)) [] ws"

definition byCount :: "jsstring \<times> nat \<Rightarrow> jsstring \<times> nat \<Rightarrow> int" where
  \<comment> \<open>the comparator \<open>(a, b) => b[1] - a[1]\<close>, also \<open>(a, b) => b.score - a.score\<close>\<close>
  "byCount a b = int (snd b) - int (snd a)"

definition topTerms :: "jsstring \<Rightarrow> int \<Rightarrow> jsstring list" where
  "topTerms t k = map fst (slice0 (sortBy byCount (countTokens (tokenize t))) k)"

record chunk =
  heading :: jsstring
  body :: jsstring

text \<open>
  The heading test \<open>/^(\d+\.|\-|\<bullet>)?\s*[A-Z][A-Za-z0-9\s\-]{3,}$/\<close>. After the optional
  prefix, \<open>\s*\<close> has to take all the white space, as an upper-case letter must follow; the
  rest of the line is three or more code units of the last class. The three ways to
  start (no prefix, a hyphen or bullet, digits and a dot) are the three disjuncts.
\<close>

definition headingRest :: "jsstring \<Rightarrow> bool" where
  "headingRest s =
     (case dropWhile isWS s of
        [] \<Rightarrow> False
      | c # cs \<Rightarrow> isUpper c \<and> 3 \<le> length cs \<and> list_all isHeadingChar cs)"

definition headingRe :: "jsstring \<Rightarrow> bool" where
  "headingRe line \<longleftrightarrow>
     headingRest line \<or>
     (case line of [] \<Rightarrow> False | c # cs \<Rightarrow> (c = 0x2D \<or> c = 0x2022) \<and> headingRest cs) \<or>
     (takeWhile isDigit line \<noteq> [] \<and>
      (case dropWhile isDigit line of [] \<Rightarrow> False | c # cs \<Rightarrow> c = 0x2E \<and> headingRest cs))"

definition isHeading :: "jsstring \<Rightarrow> bool" where
  "isHeading line \<longleftrightarrow> headingRe line \<and> length line < 80"

definition pushSection :: "chunk list \<Rightarrow> jsstring list \<Rightarrow> chunk list" where
  \<comment> \<open>\<open>if (buf.length) push("Section", buf)\<close>\<close>
  "pushSection chunks buf =
     (if buf \<noteq> [] then chunks @ [\<lparr>heading = js ''Section'', body = join (js '' '') buf\<rparr>]
      else chunks)"

fun outlineLoop :: "chunk list \<Rightarrow> jsstring list \<Rightarrow> jsstring list \<Rightarrow> chunk list" where
  "outlineLoop chunks buf [] = pushSection chunks buf"
| "outlineLoop chunks buf (line # lines) =
     (if isHeading line
      then outlineLoop (pushSection chunks buf @ [\<lparr>heading = trim line, body = []\<rparr>]) [] lines
      else outlineLoop chunks (buf @ [trim line]) lines)"

definition chunkOutline :: "jsstring \<Rightarrow> chunk list" where
  "chunkOutline text = outlineLoop [] [] (splitRuns isNL (cleanText text))"

definition scoreOf :: "jsstring \<Rightarrow> jsstring \<times> nat" where
  \<comment> \<open>the object \<open>{ s, score }\<close> as a pair; \<open>uniq.size\<close> is the number of distinct words\<close>
  "scoreOf s = (let words = tokenize s in (s, card (set words) + min 8 (length words)))"

definition keyTakeaways :: "jsstring \<Rightarrow> int \<Rightarrow> jsstring list" where
  "keyTakeaways text n =
     (let scores = map scoreOf (sentenceSplit text)
      in map fst (slice0 (sortBy byCount scores) (min n (int (length scores)))))"

text \<open>
  \<open>w[0].toUpperCase() + w.slice(1)\<close>. The words are tokens, which have more than two code
  units, so \<open>w[0]\<close> is always there.
\<close>

definition capitalize :: "jsstring \<Rightarrow> jsstring" where
  "capitalize w = toUpperCase (take 1 w) @ drop 1 w"

definition guessTitle :: "jsstring \<Rightarrow> jsstring" where
  "guessTitle text =
     (let firstLine =
            (case splitRuns isNL (cleanText text) of
               [] \<Rightarrow> js ''Notes''
             | l # _ \<Rightarrow> if l = [] then js ''Notes'' else l)
      in if length firstLine < 80 then dropWhile isTitlePrefix firstLine
         else let terms = map capitalize (topTerms text 5);
                  joined = join [0x20, 0x2022, 0x20] terms
              in if joined = [] then js ''Notes'' else joined)"

definition toMarkdown :: "jsstring \<Rightarrow> jsstring" where
  "toMarkdown allText =
     (let title = guessTitle allText;
          takeaways = keyTakeaways allText 6;
          outline = chunkOutline allText;
          terms = topTerms allText 12
      in join [0x0A]
           ([js ''# '' @ title, [], js ''## Key Takeaways''] @
            map (\<lambda>t. js ''- '' @ t) takeaways @
            [[], js ''## Outline''] @
            map (\<lambda>c. js ''- **'' @ heading c @ js ''** '' @ [0x2014] @ js '' '' @ slice0 (body c) 220)
              outline @
            [[], js ''## Terms'', js ''> '' @ join (js '', '') terms]))"

section \<open>Notions used in the statements\<close>

text \<open>
  The normal form that \<open>cleanText\<close> reaches: no tab and no two neighbouring code units of
  \<open>[\t ]\<close>, and no three newlines in a row.
\<close>

fun collapsedTS :: "jsstring \<Rightarrow> bool" where
  "collapsedTS (a # b # cs) =
     (a \<noteq> 0x09 \<and> \<not> (isTabSpace a \<and> isTabSpace b) \<and> collapsedTS (b # cs))"
| "collapsedTS [a] = (a \<noteq> 0x09)"
| "collapsedTS [] = True"

fun no3NL :: "jsstring \<Rightarrow> bool" where
  "no3NL (a # b # c # cs) = (\<not> (isNL a \<and> isNL b \<and> isNL c) \<and> no3NL (b # c # cs))"
| "no3NL [a, b] = True"
| "no3NL [a] = True"
| "no3NL [] = True"

text \<open>A text in which none of \<open>.\<close>, \<open>!\<close>, \<open>?\<close> is followed by white space.\<close>

fun noPunctBeforeWS :: "jsstring \<Rightarrow> bool" where
  "noPunctBeforeWS (a # b # cs) = (\<not> (isPunct a \<and> isWS b) \<and> noPunctBeforeWS (b # cs))"
| "noPunctBeforeWS [a] = True"
| "noPunctBeforeWS [] = True"

text \<open>
  The frequency table as the specification words it: the distinct tokens in the order
  of their first occurrence, each with the number of its occurrences.
\<close>

definition firstOccurrences :: "'a list \<Rightarrow> 'a list" where
  "firstOccurrences ws = rev (remdups (rev ws))"

definition frequencyTable :: "jsstring list \<Rightarrow> (jsstring \<times> nat) list" where
  "frequencyTable ws = map (\<lambda>w. (w, count_list ws w)) (firstOccurrences ws)"

section \<open>Evaluation on concrete inputs\<close>

lemmas char_defs = isWS_def isTabSpace_def isNL_def isDigit_def isUpper_def isLower_def
  isPunct_def isTokenChar_def isHeadingChar_def isTitlePrefix_def

lemmas eval_defs = js_def trim_def join_def splitRuns_def slice0_def sortBy_def lowerUnit_def
  toLowerCase_def toUpperCase_def cleanText_def sentenceSplit_def tokenize_def countTokens_def
  byCount_def topTerms_def headingRest_def headingRe_def isHeading_def pushSection_def
  chunkOutline_def scoreOf_def keyTakeaways_def capitalize_def guessTitle_def toMarkdown_def
  card_set

lemma STOPWORDS_eq:
  "STOPWORDS = set (map js [''the'', ''a'', ''an'', ''and'', ''or'', ''of'', ''to'', ''in'',
     ''is'', ''are'', ''was'', ''were'', ''be'', ''been'', ''for'', ''with'', ''on'', ''at'',
     ''by'', ''from'', ''as'', ''that'', ''this'', ''these'', ''those'', ''into'', ''over'',
     ''under'', ''about'', ''after'', ''before'', ''between'', ''within'', ''without'',
     ''using'', ''use'', ''used'', ''than'', ''more'', ''most'', ''very'', ''much'', ''many'',
     ''can'', ''could'', ''should'', ''would'', ''may'', ''might'', ''not'', ''no'', ''yes'',
     ''if'', ''then'', ''when'', ''where'', ''how'', ''what'', ''who'', ''which'', ''also'',
     ''etc'', ''data'', ''info'', ''page'', ''slide'', ''figure'', ''table'', ''section'',
     ''chapter'', ''article''])"
  unfolding STOPWORDS_def by (simp add: js_def splitRuns_def isWS_def)

lemma tokenize_cat_mat:
  "tokenize (js ''The cat sat on a mat'') = [js ''cat'', js ''sat'', js ''mat'']"
  by (simp add: eval_defs char_defs STOPWORDS_eq)

section \<open>The tokenizer\<close>

text \<open>
  C8. For every input string, no token returned by \<open>tokenize\<close> is a member of the stop
  word set and none has two characters or fewer; the empty string has no tokens.
\<close>

theorem tokenize_no_stopword_no_short:
  "(\<forall>w \<in> set (tokenize t). w \<notin> STOPWORDS \<and> 2 < length w) \<and> tokenize [] = []"
  by (simp add: tokenize_def cleanText_def trim_def toLowerCase_def splitRuns_def)

theorem tokenize_no_stopword_no_short_witness:
  "js ''cat'' \<in> set (tokenize (js ''The cat sat on a mat'')) \<and>
   js ''cat'' \<notin> STOPWORDS \<and> 2 < length (js ''cat'')"
  using tokenize_no_stopword_no_short [of "js ''The cat sat on a mat''"]
  by (simp add: tokenize_cat_mat)

text \<open>
  The code units of a token are lower-case ASCII letters, digits and hyphens. So the
  first code unit of a term, which \<open>guessTitle\<close> puts in upper case, is ASCII.
\<close>

lemma lowerUnit_not_upper: "c' \<in> set (lowerUnit c) \<Longrightarrow> \<not> isUpper c'"
  by (auto simp: lowerUnit_def isUpper_def split: if_splits)

lemma toLowerCase_not_upper: "c \<in> set (toLowerCase s) \<Longrightarrow> \<not> isUpper c"
  by (auto simp: toLowerCase_def dest: lowerUnit_not_upper)

lemma splitRunsFrom_chars:
  "p \<in> set (splitRunsFrom C cur s) \<Longrightarrow> c \<in> set p \<Longrightarrow> c \<in> set cur \<or> (c \<in> set s \<and> \<not> C c)"
proof (induction C cur s rule: splitRunsFrom.induct)
  case (1 C cur) then show ?case by simp
next
  case (2 C cur d ds)
  show ?case
  proof (cases "C d")
    case True
    then have "p = cur \<or> p \<in> set (splitRunsFrom C [] (dropWhile C ds))" using "2.prems"(1) by simp
    then show ?thesis
    proof
      assume "p = cur" then show ?thesis using "2.prems"(2) by simp
    next
      assume "p \<in> set (splitRunsFrom C [] (dropWhile C ds))"
      then have "c \<in> set (dropWhile C ds) \<and> \<not> C c"
        using "2.IH"(1)[OF True _ "2.prems"(2)] by simp
      then show ?thesis by (auto dest: set_dropWhileD)
    qed
  next
    case False
    then have "p \<in> set (splitRunsFrom C (cur @ [d]) ds)" using "2.prems"(1) by simp
    then show ?thesis using "2.IH"(2)[OF False _ "2.prems"(2)] False by auto
  qed
qed

lemma tokenize_chars:
  assumes "w \<in> set (tokenize t)" "c \<in> set w"
  shows "isLower c \<or> isDigit c \<or> c = 0x2D"
proof -
  let ?l = "toLowerCase (cleanText t)"
  let ?m = "map (\<lambda>c. if isTokenChar c then c else 0x20) ?l"
  have "w \<in> set (splitRunsFrom isWS [] ?m)"
    using assms(1) by (simp add: tokenize_def splitRuns_def)
  then have c: "c \<in> set ?m \<and> \<not> isWS c"
    using splitRunsFrom_chars[of w isWS "[]" ?m c] assms(2) by simp
  then obtain d where d: "d \<in> set ?l" "c = (if isTokenChar d then d else 0x20)" by auto
  have "isWS 0x20" by (simp add: isWS_def)
  then have "c = d \<and> isTokenChar d" using c d(2) by (cases "isTokenChar d") auto
  moreover have "\<not> isUpper d" using d(1) by (rule toLowerCase_not_upper)
  ultimately show ?thesis using c by (auto simp: isTokenChar_def)
qed

section \<open>The text normalizer\<close>

lemma dropWhile_trimmed:
  "dropWhile P (rev (dropWhile P (rev (dropWhile P s)))) = rev (dropWhile P (rev (dropWhile P s)))"
proof (cases "dropWhile P s")
  case Nil
  then show ?thesis by (simp del: dropWhile_eq_Nil_conv)
next
  case (Cons x xs)
  then have "\<not> P x" by (simp add: dropWhile_eq_Cons_conv)
  then show ?thesis using Cons by (simp add: dropWhile_append)
qed

lemma trim_idem: "trim (trim s) = trim s"
  by (simp add: trim_def dropWhile_trimmed)

lemma trim_infix: "\<exists>a b. s = a @ trim s @ b"
proof -
  have "s = takeWhile isWS s @ dropWhile isWS s" by simp
  moreover have "dropWhile isWS s = trim s @ rev (takeWhile isWS (rev (dropWhile isWS s)))"
    unfolding trim_def by (metis rev_append rev_rev_ident takeWhile_dropWhile_id)
  ultimately show ?thesis by metis
qed

lemma collapsedTS_tl: "collapsedTS (a # cs) \<Longrightarrow> collapsedTS cs"
  by (cases cs) auto

lemma collapsedTS_append: "collapsedTS (xs @ ys) \<Longrightarrow> collapsedTS xs \<and> collapsedTS ys"
proof (induction xs rule: collapsedTS.induct)
  case (1 a b cs) then show ?case by auto
next
  case (2 a) then show ?case by (cases ys) auto
next
  case 3 then show ?case by simp
qed

lemma collapsedTS_trim: "collapsedTS s \<Longrightarrow> collapsedTS (trim s)"
  by (metis trim_infix collapsedTS_append)

lemma no3NL_append: "no3NL (xs @ ys) \<Longrightarrow> no3NL xs \<and> no3NL ys"
proof (induction xs rule: no3NL.induct)
  case (1 a b c cs) then show ?case by auto
next
  case (2 a b) then show ?case by (cases ys rule: no3NL.cases) auto
next
  case (3 a) then show ?case by (cases ys rule: no3NL.cases) auto
next
  case 4 then show ?case by simp
qed

lemma no3NL_trim: "no3NL s \<Longrightarrow> no3NL (trim s)"
  by (metis trim_infix no3NL_append)

lemma replaceRuns_hd: "\<not> C x \<Longrightarrow> replaceRuns C r (x # xs) = x # replaceRuns C r xs"
  by simp

lemma collapsedTS_replaceRuns: "collapsedTS (replaceRuns isTabSpace [0x20] s)"
proof (induction isTabSpace "[0x20::nat]" s rule: replaceRuns.induct)
  case 1 then show ?case by simp
next
  case (2 c cs)
  show ?case
  proof (cases "isTabSpace c")
    case True
    show ?thesis
    proof (cases "dropWhile isTabSpace cs")
      case Nil then show ?thesis using True by (simp del: dropWhile_eq_Nil_conv)
    next
      case (Cons x xs)
      then have "\<not> isTabSpace x" by (simp add: dropWhile_eq_Cons_conv)
      then show ?thesis using True Cons 2(1) by simp
    qed
  next
    case False
    then have "c \<noteq> 9" by (auto simp: isTabSpace_def)
    then show ?thesis using False 2(2) by (cases "replaceRuns isTabSpace [0x20] cs") auto
  qed
qed

lemma replaceRuns_fix: "collapsedTS s \<Longrightarrow> replaceRuns isTabSpace [0x20] s = s"
proof (induction s rule: collapsedTS.induct)
  case (1 a b cs) then show ?case by (auto simp: isTabSpace_def)
next
  case (2 a) then show ?case by (auto simp: isTabSpace_def)
next
  case 3 then show ?case by simp
qed

lemma replaceNewlines3_hd: "\<exists>ys. replaceNewlines3 (b # cs) = b # ys"
  by (cases "b # cs" rule: replaceNewlines3.cases) (auto simp: isNL_def)

lemma replaceNewlines3_hd2: "\<exists>ys. replaceNewlines3 (b # c # cs) = b # c # ys"
proof (cases cs)
  case Nil then show ?thesis by simp
next
  case (Cons d ds)
  then show ?thesis using replaceNewlines3_hd[of c cs] by (auto simp: isNL_def)
qed

lemma dropWhile_suffix: "\<exists>a. s = a @ dropWhile P s"
  by (metis takeWhile_dropWhile_id)

lemma collapsedTS_replaceNewlines3: "collapsedTS s \<Longrightarrow> collapsedTS (replaceNewlines3 s)"
proof (induction s rule: replaceNewlines3.induct)
  case (1 a b c cs)
  show ?case
  proof (cases "isNL a \<and> isNL b \<and> isNL c")
    case True
    have "collapsedTS (dropWhile isNL cs)"
      using 1(3) dropWhile_suffix[of cs isNL] collapsedTS_append collapsedTS_tl by metis
    then have "collapsedTS (replaceNewlines3 (dropWhile isNL cs))" using 1(1) True by simp
    then show ?thesis using True
      by (cases "replaceNewlines3 (dropWhile isNL cs)") (auto simp: isTabSpace_def)
  next
    case False
    obtain ys where ys: "replaceNewlines3 (b # c # cs) = b # ys"
      using replaceNewlines3_hd by blast
    have eq: "replaceNewlines3 (a # b # c # cs) = a # b # ys"
      by (simp only: replaceNewlines3.simps if_not_P[OF False] ys)
    have "collapsedTS (b # ys)" using 1(2)[OF False] 1(3) ys by simp
    then show ?thesis unfolding eq using 1(3) by simp
  qed
qed simp_all

lemma no3NL_replaceNewlines3: "no3NL (replaceNewlines3 s)"
proof (induction s rule: replaceNewlines3.induct)
  case (1 a b c cs)
  show ?case
  proof (cases "isNL a \<and> isNL b \<and> isNL c")
    case True
    show ?thesis
    proof (cases "dropWhile isNL cs")
      case Nil then show ?thesis using True by (simp del: dropWhile_eq_Nil_conv)
    next
      case (Cons x xs)
      then have nx: "\<not> isNL x" by (simp add: dropWhile_eq_Cons_conv)
      obtain ys where ys: "replaceNewlines3 (x # xs) = x # ys"
        using replaceNewlines3_hd by blast
      have "no3NL (x # ys)" using 1(1) True Cons ys by simp
      then show ?thesis using True Cons ys nx by (cases ys) (auto simp: isNL_def)
    qed
  next
    case False
    obtain ys where ys: "replaceNewlines3 (b # c # cs) = b # c # ys"
      using replaceNewlines3_hd2 by blast
    have eq: "replaceNewlines3 (a # b # c # cs) = a # b # c # ys"
      by (simp only: replaceNewlines3.simps if_not_P[OF False] ys)
    show ?thesis unfolding eq using False 1(2)[OF False] ys by simp
  qed
qed simp_all

lemma replaceNewlines3_fix: "no3NL s \<Longrightarrow> replaceNewlines3 s = s"
  by (induction s rule: replaceNewlines3.induct) auto

lemma set_replaceRuns: "set (replaceRuns C r s) \<subseteq> set r \<union> set s"
proof (induction C r s rule: replaceRuns.induct)
  case (1 C r) then show ?case by simp
next
  case (2 C r c cs)
  have "set (dropWhile C cs) \<subseteq> set cs" by (simp add: set_dropWhileD subsetI)
  then show ?case using 2 by (auto split: if_splits)
qed

lemma set_replaceNewlines3: "set (replaceNewlines3 s) \<subseteq> set s"
proof (induction s rule: replaceNewlines3.induct)
  case (1 a b c cs)
  have "set (dropWhile isNL cs) \<subseteq> set cs" by (simp add: set_dropWhileD subsetI)
  then show ?case using 1 by (auto simp: isNL_def split: if_splits)
qed simp_all

lemma set_trim: "set (trim s) \<subseteq> set s"
  by (metis trim_infix Un_upper1 Un_upper2 set_append subset_trans)

lemma no_nbsp_cleanText: "0xA0 \<notin> set (cleanText t)"
proof -
  let ?m = "map (\<lambda>c. if c = 0xA0 then 0x20 else c) t"
  have "(0xA0::nat) \<notin> set ?m" by auto
  then have "(0xA0::nat) \<notin> set (replaceRuns isTabSpace (js '' '') ?m)"
    using set_replaceRuns[of isTabSpace "js '' ''" ?m] by (auto simp: js_def)
  then show ?thesis unfolding cleanText_def
    using set_replaceNewlines3 set_trim by blast
qed

lemma collapsedTS_no_tab: "collapsedTS s \<Longrightarrow> 0x09 \<notin> set s"
  by (induction s rule: collapsedTS.induct) auto

lemma collapsedTS_cleanText: "collapsedTS (cleanText x)"
proof -
  have sp: "js '' '' = [0x20]" by (simp add: js_def)
  show ?thesis unfolding cleanText_def sp
    by (intro collapsedTS_trim collapsedTS_replaceNewlines3 collapsedTS_replaceRuns)
qed

lemma no3NL_cleanText: "no3NL (cleanText x)"
  unfolding cleanText_def by (intro no3NL_trim no3NL_replaceNewlines3)

lemma cleanText_fixed: "cleanText (cleanText x) = cleanText x"
proof -
  let ?m = "map (\<lambda>c. if c = 0xA0 then 0x20 else c) x"
  let ?y = "cleanText x"
  have sp: "js '' '' = [0x20]" by (simp add: js_def)
  have m: "map (\<lambda>c. if c = 0xA0 then 0x20 else c) ?y = ?y"
    using no_nbsp_cleanText[of x] by (intro map_idI) auto
  have ts: "collapsedTS ?y"
    unfolding cleanText_def sp
    by (intro collapsedTS_trim collapsedTS_replaceNewlines3 collapsedTS_replaceRuns)
  have nl: "no3NL ?y"
    unfolding cleanText_def by (intro no3NL_trim no3NL_replaceNewlines3)
  have "cleanText ?y = trim (replaceNewlines3 (replaceRuns isTabSpace [0x20] ?y))"
    using m by (simp add: cleanText_def[of ?y] sp)
  also have "\<dots> = trim ?y" using ts nl by (simp add: replaceRuns_fix replaceNewlines3_fix)
  also have "\<dots> = ?y" by (simp add: cleanText_def trim_idem)
  finally show ?thesis .
qed


text \<open>
  C7. \<open>cleanText\<close> is idempotent. Its result holds no non-breaking space and no tab, has
  no two neighbouring tabs or spaces and no three newlines in a row, and is trimmed; an
  example shows the four steps at work.
\<close>

theorem cleanText_idempotent:
  "cleanText (cleanText x) = cleanText x \<and>
   0xA0 \<notin> set (cleanText x) \<and> 0x09 \<notin> set (cleanText x) \<and>
   collapsedTS (cleanText x) \<and> no3NL (cleanText x) \<and>
   trim (cleanText x) = cleanText x \<and>
   cleanText (js ''  a'' @ [0x09, 0x09] @ js '' b'' @ [0xA0] @ [0x0A, 0x0A, 0x0A, 0x0A] @ js ''c  '')
     = js ''a b '' @ [0x0A, 0x0A] @ js ''c''"
proof -
  have "trim (cleanText x) = cleanText x" by (simp add: cleanText_def trim_idem)
  moreover have "cleanText (js ''  a'' @ [0x09, 0x09] @ js '' b'' @ [0xA0] @ [0x0A, 0x0A, 0x0A, 0x0A] @ js ''c  '')
     = js ''a b '' @ [0x0A, 0x0A] @ js ''c''"
    by (simp add: eval_defs char_defs)
  ultimately show ?thesis
    using cleanText_fixed no_nbsp_cleanText collapsedTS_cleanText no3NL_cleanText
      collapsedTS_no_tab[OF collapsedTS_cleanText]
    by blast
qed

section \<open>The sentence splitter\<close>

lemma noPunctBeforeWS_tl: "noPunctBeforeWS (a # cs) \<Longrightarrow> noPunctBeforeWS cs"
  by (cases cs) auto

lemma noPunctBeforeWS_append:
  "noPunctBeforeWS (xs @ ys) \<Longrightarrow> noPunctBeforeWS xs \<and> noPunctBeforeWS ys"
proof (induction xs rule: noPunctBeforeWS.induct)
  case (1 a b cs) then show ?case by auto
next
  case (2 a) then show ?case by (cases ys) auto
next
  case 3 then show ?case by simp
qed

lemma noPunctBeforeWS_dropWhile: "noPunctBeforeWS s \<Longrightarrow> noPunctBeforeWS (dropWhile P s)"
  using dropWhile_suffix[of s P] noPunctBeforeWS_append by metis

lemma noPunctBeforeWS_trim: "noPunctBeforeWS s \<Longrightarrow> noPunctBeforeWS (trim s)"
  by (metis trim_infix noPunctBeforeWS_append)

lemma noPunctBeforeWS_map:
  assumes "\<And>c. isPunct (f c) = isPunct c" "\<And>c. isWS (f c) = isWS c"
  shows "noPunctBeforeWS s \<Longrightarrow> noPunctBeforeWS (map f s)"
  by (induction s rule: noPunctBeforeWS.induct) (auto simp: assms)

lemma noPunctBeforeWS_space: "noPunctBeforeWS s \<Longrightarrow> noPunctBeforeWS (0x20 # s)"
  by (cases s) (auto simp: isPunct_def)

lemma noPunctBeforeWS_replaceRuns:
  "(\<And>c. C c \<Longrightarrow> isWS c) \<Longrightarrow> noPunctBeforeWS s \<Longrightarrow>
   noPunctBeforeWS (replaceRuns C [0x20] s)"
proof (induction C "[0x20::nat]" s rule: replaceRuns.induct)
  case (1 C) then show ?case by simp
next
  case (2 C c cs)
  have ws: "\<And>c. C c \<Longrightarrow> isWS c" using "2.prems"(1) .
  show ?case
  proof (cases "C c")
    case True
    have "noPunctBeforeWS (dropWhile C cs)"
      using "2.prems"(2) noPunctBeforeWS_tl noPunctBeforeWS_dropWhile by blast
    then have "noPunctBeforeWS (replaceRuns C [0x20] (dropWhile C cs))"
      using "2.hyps"(1)[OF True ws] by simp
    then show ?thesis using True by (simp add: noPunctBeforeWS_space)
  next
    case False
    have tl: "noPunctBeforeWS (replaceRuns C [0x20] cs)"
      using "2.hyps"(2)[OF False ws] "2.prems"(2) noPunctBeforeWS_tl by blast
    show ?thesis
    proof (cases cs)
      case Nil then show ?thesis using False by simp
    next
      case (Cons b bs)
      have nb: "\<not> (isPunct c \<and> isWS b)" using "2.prems"(2) Cons by simp
      show ?thesis
      proof (cases "C b")
        case True
        then have "isWS b" using ws by simp
        then have "\<not> isPunct c" using nb by simp
        then show ?thesis using False True Cons tl by simp
      next
        case Fb: False
        then show ?thesis using False Cons tl nb by simp
      qed
    qed
  qed
qed

lemma noPunctBeforeWS_replaceNewlines3:
  "noPunctBeforeWS s \<Longrightarrow> noPunctBeforeWS (replaceNewlines3 s)"
proof (induction s rule: replaceNewlines3.induct)
  case (1 a b c cs)
  show ?case
  proof (cases "isNL a \<and> isNL b \<and> isNL c")
    case True
    have "noPunctBeforeWS (dropWhile isNL cs)"
      using 1(3) noPunctBeforeWS_tl noPunctBeforeWS_dropWhile by blast
    then have "noPunctBeforeWS (replaceNewlines3 (dropWhile isNL cs))" using 1(1) True by simp
    then show ?thesis using True
      by (cases "replaceNewlines3 (dropWhile isNL cs)") (auto simp: isPunct_def)
  next
    case False
    obtain ys where ys: "replaceNewlines3 (b # c # cs) = b # ys"
      using replaceNewlines3_hd by blast
    have eq: "replaceNewlines3 (a # b # c # cs) = a # b # ys"
      by (simp only: replaceNewlines3.simps if_not_P[OF False] ys)
    have "noPunctBeforeWS (b # ys)" using 1(2)[OF False] 1(3) ys by simp
    then show ?thesis unfolding eq using 1(3) by simp
  qed
qed simp_all

lemma noPunctBeforeWS_collapsed:
  assumes "noPunctBeforeWS t"
  shows "noPunctBeforeWS (replaceRuns isWS (js '' '') (cleanText t))"
proof -
  have sp: "js '' '' = [0x20]" by (simp add: js_def)
  have "noPunctBeforeWS (map (\<lambda>c. if c = 0xA0 then 0x20 else c) t)"
    using assms by (rule noPunctBeforeWS_map[rotated 2]) (auto simp: isPunct_def isWS_def)
  then have "noPunctBeforeWS (replaceRuns isTabSpace [0x20] (map (\<lambda>c. if c = 0xA0 then 0x20 else c) t))"
    by (rule noPunctBeforeWS_replaceRuns[rotated]) (auto simp: isTabSpace_def isWS_def)
  then have "noPunctBeforeWS (cleanText t)"
    unfolding cleanText_def sp
    by (intro noPunctBeforeWS_trim noPunctBeforeWS_replaceNewlines3)
  then show ?thesis unfolding sp
    by (rule noPunctBeforeWS_replaceRuns[rotated])
qed

lemma splitSentencesFrom_whole:
  "noPunctBeforeWS s \<Longrightarrow>
   (case prev of None \<Rightarrow> True | Some p \<Rightarrow> isPunct p \<longrightarrow> s = [] \<or> \<not> isWS (hd s)) \<Longrightarrow>
   splitSentencesFrom cur prev s = [cur @ s]"
proof (induction s arbitrary: cur prev)
  case Nil then show ?case by simp
next
  case (Cons c cs)
  have no: "\<not> (isWS c \<and> (case prev of None \<Rightarrow> False | Some p \<Rightarrow> isPunct p))"
    using Cons.prems(2) by (cases prev) auto
  have nxt: "isPunct c \<longrightarrow> cs = [] \<or> \<not> isWS (hd cs)"
    using Cons.prems(1) by (cases cs) auto
  have "splitSentencesFrom cur prev (c # cs) = splitSentencesFrom (cur @ [c]) (Some c) cs"
    using no by auto
  also have "\<dots> = [(cur @ [c]) @ cs]"
    using Cons.IH[of "Some c" "cur @ [c]"] Cons.prems(1) nxt noPunctBeforeWS_tl by auto
  finally show ?case by simp
qed

lemma sentenceSplit_ab_cd: "sentenceSplit (js ''ab'' @ [0x0A] @ js ''cd'') = [js ''ab cd'']"
  by (simp add: eval_defs char_defs)

lemma noPunct_ab_cd: "noPunctBeforeWS (js ''ab'' @ [0x0A] @ js ''cd'')"
  by (simp add: eval_defs char_defs)

text \<open>
  C6, with the sentence as the code computes it. For a text in which none of \<open>.\<close>,
  \<open>!\<close>, \<open>?\<close> is followed by white space, \<open>sentenceSplit\<close> returns one sentence, the
  normalized text with every run of white space replaced by one space, when that has
  more than two code units, and no sentence otherwise.
\<close>

theorem sentenceSplit_no_terminator:
  assumes "noPunctBeforeWS t"
  shows "sentenceSplit t =
         (let s = replaceRuns isWS (js '' '') (cleanText t) in if 2 < length s then [s] else [])"
proof -
  let ?s = "replaceRuns isWS (js '' '') (cleanText t)"
  have "splitSentencesFrom [] None ?s = [?s]"
    using splitSentencesFrom_whole[OF noPunctBeforeWS_collapsed[OF assms], of None "[]"] by simp
  then show ?thesis by (auto simp: sentenceSplit_def Let_def)
qed

text \<open>An instance: two words on two lines.\<close>

theorem sentenceSplit_no_terminator_witness:
  "noPunctBeforeWS (js ''ab'' @ [0x0A] @ js ''cd'') \<and>
   sentenceSplit (js ''ab'' @ [0x0A] @ js ''cd'') = [js ''ab cd''] \<and>
   replaceRuns isWS (js '' '') (cleanText (js ''ab'' @ [0x0A] @ js ''cd'')) = js ''ab cd''"
  using sentenceSplit_no_terminator [OF noPunct_ab_cd] noPunct_ab_cd sentenceSplit_ab_cd
  by (simp add: Let_def split: if_splits)

text \<open>
  The sentence is not the trimmed text: white space inside the text is collapsed to
  single spaces, so a newline between two words comes back as a space.
\<close>

theorem sentenceSplit_trimmed_counterexample:
  "noPunctBeforeWS (js ''ab'' @ [0x0A] @ js ''cd'') \<and>
   2 < length (trim (js ''ab'' @ [0x0A] @ js ''cd'')) \<and>
   sentenceSplit (js ''ab'' @ [0x0A] @ js ''cd'') = [js ''ab cd''] \<and>
   sentenceSplit (js ''ab'' @ [0x0A] @ js ''cd'') \<noteq> [trim (js ''ab'' @ [0x0A] @ js ''cd'')]"
  by (simp add: noPunct_ab_cd sentenceSplit_ab_cd) (simp add: eval_defs char_defs)


section \<open>Sorting, slicing and the frequency table\<close>

lemma set_insertBy: "set (insertBy cmp x ys) = insert x (set ys)"
  by (induction ys) auto

lemma sortBy_Cons: "sortBy cmp (x # xs) = insertBy cmp x (sortBy cmp xs)"
  by (simp add: sortBy_def)

lemma sortBy_Nil: "sortBy cmp [] = []"
  by (simp add: sortBy_def)

lemma set_sortBy: "set (sortBy cmp xs) = set xs"
  by (induction xs) (auto simp: sortBy_Cons sortBy_Nil set_insertBy)

lemma length_insertBy: "length (insertBy cmp x ys) = Suc (length ys)"
  by (induction ys) auto

lemma length_sortBy: "length (sortBy cmp xs) = length xs"
  by (induction xs) (auto simp: sortBy_Cons sortBy_Nil length_insertBy)

lemma distinct_map_insertBy:
  "distinct (map f (insertBy cmp x ys)) \<longleftrightarrow> f x \<notin> f ` set ys \<and> distinct (map f ys)"
  by (induction ys) (auto simp: set_insertBy)

lemma distinct_map_sortBy: "distinct (map f (sortBy cmp xs)) \<longleftrightarrow> distinct (map f xs)"
  by (induction xs) (auto simp: sortBy_Cons sortBy_Nil distinct_map_insertBy set_sortBy)

lemma sorted_insertBy:
  "sorted_wrt (\<lambda>a b. snd b \<le> snd a) ys \<Longrightarrow>
   sorted_wrt (\<lambda>a b. snd b \<le> snd a) (insertBy byCount x ys)"
proof (induction ys)
  case Nil then show ?case by simp
next
  case (Cons y ys)
  show ?case
  proof (cases "byCount x y \<le> 0")
    case True
    then have "snd y \<le> snd x" by (simp add: byCount_def)
    then show ?thesis using True Cons.prems by fastforce
  next
    case False
    then have "snd x \<le> snd y" by (simp add: byCount_def)
    then show ?thesis using False Cons by (auto simp: set_insertBy)
  qed
qed

lemma sorted_sortBy: "sorted_wrt (\<lambda>a b. snd b \<le> snd a) (sortBy byCount xs)"
  by (induction xs) (auto simp: sortBy_Cons sortBy_Nil sorted_insertBy)

lemma filter_insertBy:
  "filter (\<lambda>e. snd e = c) (insertBy byCount x ys) =
   (if snd x = c then x # filter (\<lambda>e. snd e = c) ys else filter (\<lambda>e. snd e = c) ys)"
  by (induction ys) (auto simp: byCount_def)

lemma filter_sortBy:
  "filter (\<lambda>e. snd e = c) (sortBy byCount xs) = filter (\<lambda>e. snd e = c) xs"
  by (induction xs) (auto simp: sortBy_Cons sortBy_Nil filter_insertBy)

lemma slice0_take: "\<exists>m. slice0 xs e = take m xs"
  by (auto simp: slice0_def)

lemma slice0_nonneg: "0 \<le> e \<Longrightarrow> slice0 xs e = take (nat e) xs"
  by (simp add: slice0_def)

lemma mapSet_table:
  "distinct F \<Longrightarrow>
   mapSet (map (\<lambda>v. (v, g v)) F) w n =
   (if w \<in> set F then map (\<lambda>v. (v, if v = w then n else g v)) F
    else map (\<lambda>v. (v, g v)) F @ [(w, n)])"
  by (induction F) auto

lemma map_of_table:
  "map_of (map (\<lambda>v. (v, g v)) F) w = (if w \<in> set F then Some (g w) else None)"
  by (induction F) auto

lemma firstOccurrences_snoc:
  "firstOccurrences (ws @ [w]) = (if w \<in> set ws then firstOccurrences ws else firstOccurrences ws @ [w])"
  by (simp add: firstOccurrences_def)

lemma set_firstOccurrences: "set (firstOccurrences ws) = set ws"
  by (simp add: firstOccurrences_def)

lemma distinct_firstOccurrences: "distinct (firstOccurrences ws)"
  by (simp add: firstOccurrences_def)

lemma countTokens_snoc:
  "countTokens (ws @ [w]) =
   mapSet (countTokens ws) w ((case map_of (countTokens ws) w of None \<Rightarrow> 0 | Some n \<Rightarrow> n) + 1)"
  by (simp add: countTokens_def)

lemma countTokens_frequencyTable: "countTokens ws = frequencyTable ws"
proof (induction ws rule: rev_induct)
  case Nil
  then show ?case by (simp add: countTokens_def frequencyTable_def firstOccurrences_def)
next
  case (snoc w ws)
  let ?F = "firstOccurrences ws"
  have tbl: "countTokens ws = map (\<lambda>v. (v, count_list ws v)) ?F"
    using snoc by (simp add: frequencyTable_def)
  show ?case
  proof (cases "w \<in> set ws")
    case True
    then show ?thesis
      unfolding countTokens_snoc tbl frequencyTable_def firstOccurrences_snoc
      by (simp add: mapSet_table distinct_firstOccurrences map_of_table set_firstOccurrences)
  next
    case False
    then have "count_list ws w = 0" by simp
    then show ?thesis
      using False unfolding countTokens_snoc tbl frequencyTable_def firstOccurrences_snoc
      by (auto simp: mapSet_table distinct_firstOccurrences map_of_table set_firstOccurrences)
  qed
qed

lemma keys_countTokens: "map fst (countTokens ws) = firstOccurrences ws"
  by (simp add: countTokens_frequencyTable frequencyTable_def comp_def)

lemma topTerms_distinct: "distinct (topTerms t k)"
proof -
  let ?r = "sortBy byCount (countTokens (tokenize t))"
  obtain m where m: "slice0 ?r k = take m ?r" using slice0_take by blast
  have "distinct (map fst ?r)"
    by (simp add: distinct_map_sortBy keys_countTokens distinct_firstOccurrences)
  then have "distinct (take m (map fst ?r))" by (rule distinct_take)
  then show ?thesis by (simp add: topTerms_def m take_map)
qed

lemma topTerms_subset: "set (topTerms t k) \<subseteq> set (tokenize t)"
proof -
  let ?r = "sortBy byCount (countTokens (tokenize t))"
  obtain m where m: "slice0 ?r k = take m ?r" using slice0_take by blast
  have "set (map fst ?r) = set (tokenize t)"
    using set_sortBy[of byCount "countTokens (tokenize t)"] keys_countTokens[of "tokenize t"]
      set_firstOccurrences[of "tokenize t"]
    by (metis set_map)
  moreover have "set (take m (map fst ?r)) \<subseteq> set (map fst ?r)" by (rule set_take_subset)
  ultimately show ?thesis by (simp add: topTerms_def m take_map)
qed

lemma tokenize_long: "w \<in> set (tokenize t) \<Longrightarrow> 2 < length w"
  by (simp add: tokenize_def)

lemma topTerms_long: "w \<in> set (topTerms t k) \<Longrightarrow> 2 < length w"
  using topTerms_subset tokenize_long by blast


section \<open>The term ranker\<close>

lemma topTerms_cat_dog:
  "topTerms (js ''cat cat cat dog dog bird'') 2 = [js ''cat'', js ''dog'']"
  by (simp add: eval_defs char_defs STOPWORDS_eq)

lemma topTerms_cat_dog_negative:
  "topTerms (js ''cat cat cat dog dog bird'') (- 1) = [js ''cat'', js ''dog'']"
  by (simp add: eval_defs char_defs STOPWORDS_eq)

text \<open>
  C10. For every text and every \<open>k\<close>, the terms returned by \<open>topTerms\<close> are pairwise
  distinct, and each of them is a token of the text.
\<close>

theorem topTerms_distinct_tokens:
  "distinct (topTerms t k) \<and> set (topTerms t k) \<subseteq> set (tokenize t)"
  using topTerms_distinct topTerms_subset by blast

text \<open>
  C5. For every text and every count \<open>k\<close> (the program passes 5 and 12), \<open>topTerms\<close>
  returns the tokens of the first \<open>k\<close> entries of the ranked frequency table. The table that the loop builds is the one of
  the specification: the distinct tokens in the order of their first occurrence, each
  with its number of occurrences. The ranking is sorted by count, largest first, and
  stable: the entries of any one count stand in the order they have in the table.
  On \<open>"cat cat cat dog dog bird"\<close> and \<open>k = 2\<close> the result is \<open>["cat", "dog"]\<close>.
\<close>

theorem topTerms_ranked:
  assumes "0 \<le> k"
  shows "topTerms t k = map fst (take (nat k) (sortBy byCount (countTokens (tokenize t)))) \<and>
         countTokens (tokenize t) = frequencyTable (tokenize t) \<and>
         sorted_wrt (\<lambda>a b. snd b \<le> snd a) (sortBy byCount (countTokens (tokenize t))) \<and>
         (\<forall>c. filter (\<lambda>e. snd e = c) (sortBy byCount (countTokens (tokenize t))) =
              filter (\<lambda>e. snd e = c) (countTokens (tokenize t))) \<and>
         topTerms (js ''cat cat cat dog dog bird'') 2 = [js ''cat'', js ''dog'']"
proof -
  have "topTerms t k = map fst (take (nat k) (sortBy byCount (countTokens (tokenize t))))"
    using assms by (simp add: topTerms_def slice0_nonneg)
  then show ?thesis
    using countTokens_frequencyTable sorted_sortBy filter_sortBy topTerms_cat_dog by blast
qed

text \<open>An instance: \<open>k = 2\<close> on the text of the example.\<close>

theorem topTerms_ranked_witness:
  "(0::int) \<le> 2 \<and>
   topTerms (js ''cat cat cat dog dog bird'') 2 =
     map fst (take (nat 2)
       (sortBy byCount (countTokens (tokenize (js ''cat cat cat dog dog bird''))))) \<and>
   topTerms (js ''cat cat cat dog dog bird'') 2 = [js ''cat'', js ''dog'']"
proof -
  have h: "(0::int) \<le> 2" by simp
  show ?thesis using h topTerms_ranked [OF h, of "js ''cat cat cat dog dog bird''"] by blast
qed

section \<open>The takeaway selector\<close>

lemma sentenceSplit_hello:
  "sentenceSplit (js ''Hello world one. Hello world two. Hello three world.'') =
     [js ''Hello world one.'', js ''Hello world two.'', js ''Hello three world.'']"
  by (simp add: eval_defs char_defs)

lemma keyTakeaways_hello_negative:
  "keyTakeaways (js ''Hello world one. Hello world two. Hello three world.'') (- 1) =
     [js ''Hello world one.'', js ''Hello world two.'']"
  by (simp add: eval_defs char_defs STOPWORDS_eq)

lemma keyTakeaways_hello_two:
  "keyTakeaways (js ''Hello world one. Hello world two. Hello three world.'') 2 =
     [js ''Hello world one.'', js ''Hello world two.'']"
  by (simp add: eval_defs char_defs STOPWORDS_eq)

lemma fst_scoreOf: "fst (scoreOf s) = s"
  by (simp add: scoreOf_def Let_def)

lemma keyTakeaways_nonneg:
  assumes "0 \<le> n"
  shows "keyTakeaways text n =
         map fst (take (nat n) (sortBy byCount (map scoreOf (sentenceSplit text))))"
proof -
  let ?scores = "map scoreOf (sentenceSplit text)"
  have "nat (min n (int (length ?scores))) = min (nat n) (length ?scores)"
    using assms by auto
  then have "take (nat (min n (int (length ?scores)))) (sortBy byCount ?scores) =
             take (nat n) (sortBy byCount ?scores)"
    by (simp add: length_sortBy take_all_iff min_def)
  then show ?thesis
    using assms by (simp add: keyTakeaways_def Let_def slice0_nonneg)
qed

lemma set_slice0: "set (slice0 xs e) \<subseteq> set xs"
  by (auto simp: slice0_def dest: in_set_takeD)

lemma keyTakeaways_subset: "set (keyTakeaways text n) \<subseteq> set (sentenceSplit text)"
proof -
  let ?scores = "map scoreOf (sentenceSplit text)"
  let ?r = "sortBy byCount ?scores"
  have "set (keyTakeaways text n) = fst ` set (slice0 ?r (min n (int (length ?scores))))"
    by (simp add: keyTakeaways_def Let_def)
  also have "\<dots> \<subseteq> fst ` set ?r" by (rule image_mono) (rule set_slice0)
  also have "fst ` set ?r = set (map fst ?scores)" by (simp only: set_sortBy set_map)
  also have "\<dots> = set (sentenceSplit text)" by (simp add: comp_def fst_scoreOf)
  finally show ?thesis .
qed

text \<open>
  C4. For every text and every count \<open>n\<close> (the program passes 6), \<open>keyTakeaways\<close>
  returns \<open>min(n, number of sentences)\<close> sentences, each of them a sentence of the sentence split of the text. They are the
  first \<open>n\<close> of the ranking of the scored sentences, which is sorted by score, largest
  first, and stable: the sentences of any one score keep the order of the split. The
  score of a sentence is the number of its distinct tokens plus the smaller of 8 and
  the number of its tokens.
\<close>

theorem keyTakeaways_ranked:
  assumes "0 \<le> n"
  shows "length (keyTakeaways text n) = min (nat n) (length (sentenceSplit text)) \<and>
         set (keyTakeaways text n) \<subseteq> set (sentenceSplit text) \<and>
         keyTakeaways text n =
           map fst (take (nat n) (sortBy byCount (map scoreOf (sentenceSplit text)))) \<and>
         sorted_wrt (\<lambda>a b. snd b \<le> snd a) (sortBy byCount (map scoreOf (sentenceSplit text))) \<and>
         (\<forall>c. filter (\<lambda>e. snd e = c) (sortBy byCount (map scoreOf (sentenceSplit text))) =
              filter (\<lambda>e. snd e = c) (map scoreOf (sentenceSplit text))) \<and>
         (\<forall>s. scoreOf s = (s, card (set (tokenize s)) + min 8 (length (tokenize s))))"
proof -
  have "length (keyTakeaways text n) = min (nat n) (length (sentenceSplit text))"
    by (simp add: keyTakeaways_nonneg[OF assms] length_sortBy min.commute)
  moreover have "\<forall>s. scoreOf s = (s, card (set (tokenize s)) + min 8 (length (tokenize s)))"
    by (simp add: scoreOf_def Let_def)
  ultimately show ?thesis
    using keyTakeaways_subset keyTakeaways_nonneg[OF assms] sorted_sortBy filter_sortBy
    by blast
qed

text \<open>An instance: \<open>n = 2\<close> on a text of three sentences of equal score.\<close>

theorem keyTakeaways_ranked_witness:
  "(0::int) \<le> 2 \<and>
   length (keyTakeaways (js ''Hello world one. Hello world two. Hello three world.'') 2) =
     min (nat 2)
       (length (sentenceSplit (js ''Hello world one. Hello world two. Hello three world.''))) \<and>
   keyTakeaways (js ''Hello world one. Hello world two. Hello three world.'') 2 =
     [js ''Hello world one.'', js ''Hello world two.'']"
proof -
  have h: "(0::int) \<le> 2" by simp
  show ?thesis
    using h keyTakeaways_hello_two
      keyTakeaways_ranked [OF h, of "js ''Hello world one. Hello world two. Hello three world.''"]
    by blast
qed

section \<open>The outline segmenter\<close>

lemma outlineLoop_body:
  "\<forall>b\<in>set bs. \<not> isHeading b \<Longrightarrow>
   outlineLoop chunks buf (bs @ rest) = outlineLoop chunks (buf @ map trim bs) rest"
  by (induction bs arbitrary: buf) auto


lemma outlineLoop_heading_body:
  assumes "isHeading h" "bs \<noteq> []" "\<forall>b\<in>set bs. \<not> isHeading b" "rest = [] \<or> isHeading (hd rest)"
  shows "outlineLoop chunks [] (h # bs @ rest) =
         outlineLoop (chunks @ [\<lparr>heading = trim h, body = []\<rparr>,
                                \<lparr>heading = js ''Section'', body = join (js '' '') (map trim bs)\<rparr>])
           [] rest"
proof -
  let ?c = "chunks @ [\<lparr>heading = trim h, body = []\<rparr>]"
  have "outlineLoop chunks [] (h # bs @ rest) = outlineLoop ?c [] (bs @ rest)"
    using assms(1) by (simp add: pushSection_def)
  also have "\<dots> = outlineLoop ?c (map trim bs) rest"
    using outlineLoop_body[OF assms(3), of ?c "[]" rest] by simp
  also have "\<dots> = outlineLoop (?c @ [\<lparr>heading = js ''Section'', body = join (js '' '') (map trim bs)\<rparr>]) [] rest"
  proof (cases rest)
    case Nil
    then show ?thesis using assms(2) by (simp add: pushSection_def)
  next
    case (Cons r rs)
    then have "isHeading r" using assms(4) by simp
    then show ?thesis using Cons assms(2) by (simp add: pushSection_def)
  qed
  finally show ?thesis by simp
qed



lemma chunkOutline_empty: "chunkOutline [] = [\<lparr>heading = js ''Section'', body = []\<rparr>]"
  by (simp add: eval_defs char_defs)










section \<open>The title guesser\<close>

lemma replicate_numeral: "replicate (numeral v) x = x # replicate (pred_numeral v) x"
  by (simp add: numeral_eq_Suc)

lemma guessTitle_long_no_terms: "guessTitle (replicate 80 0x21) = js ''Notes''"
  by (simp add: eval_defs char_defs replicate_numeral)


text \<open>
  C1. The title can be empty: the first line \<open>"1."\<close> is shorter than 80 code units, the
  prefix pattern takes all of it, and no fallback follows the stripping. The two other
  ways out of \<open>guessTitle\<close> do fall back to \<open>"Notes"\<close>: on the empty text, and on a first
  line of 80 exclamation marks, which is too long and has no terms.
\<close>

theorem guessTitle_stripped_to_empty:
  "guessTitle (js ''1.'') = [] \<and>
   guessTitle [] = js ''Notes'' \<and>
   guessTitle (replicate 80 0x21) = js ''Notes''"
  using guessTitle_long_no_terms by (simp add: eval_defs char_defs)

section \<open>The Markdown assembler\<close>

lemma join_Cons: "join sep (y # ys) = y @ concat (map (\<lambda>z. sep @ z) ys)"
  by (simp add: join_def)

text \<open>
  C9. The document is \<open>"# "\<close> and the guessed title, an empty line, the header
  \<open>"## Key Takeaways"\<close>, one line \<open>"- "\<close> plus sentence for each takeaway, an empty
  line, the header \<open>"## Outline"\<close>, one line for each chunk made of \<open>"- **"\<close>, the
  heading, \<open>"** "\<close>, a dash (U+2014), a space and the first 220 code units of the body,
  an empty line, the header \<open>"## Terms"\<close> and one line \<open>"> "\<close> plus the terms joined by
  \<open>", "\<close>.
\<close>

theorem toMarkdown_layout:
  "toMarkdown t =
     js ''# '' @ guessTitle t @ [0x0A, 0x0A] @ js ''## Key Takeaways'' @
     concat (map (\<lambda>s. [0x0A] @ js ''- '' @ s) (keyTakeaways t 6)) @
     [0x0A, 0x0A] @ js ''## Outline'' @
     concat (map (\<lambda>c. [0x0A] @ js ''- **'' @ heading c @ js ''** '' @ [0x2014] @ js '' '' @
                        take 220 (body c)) (chunkOutline t)) @
     [0x0A, 0x0A] @ js ''## Terms'' @ [0x0A] @ js ''> '' @ join (js '', '') (topTerms t 12)"
  by (simp add: toMarkdown_def Let_def join_Cons slice0_def comp_def)

section \<open>The empty input\<close>

text \<open>
  C2, with the outline as the code computes it. On the empty string every function
  returns: no tokens, no sentences, no terms, no takeaways, the title \<open>"Notes"\<close>, and an
  outline of one chunk, labelled \<open>Section\<close>, with an empty body.
\<close>

theorem empty_input_outputs:
  "cleanText [] = [] \<and> tokenize [] = [] \<and> sentenceSplit [] = [] \<and>
   topTerms [] k = [] \<and> keyTakeaways [] n = [] \<and>
   chunkOutline [] = [\<lparr>heading = js ''Section'', body = []\<rparr>] \<and>
   guessTitle [] = js ''Notes'' \<and>
   toMarkdown [] = js ''# Notes'' @ [0x0A, 0x0A] @ js ''## Key Takeaways'' @ [0x0A, 0x0A] @
     js ''## Outline'' @ [0x0A] @ js ''- **Section** '' @ [0x2014] @ js '' '' @ [0x0A, 0x0A] @
     js ''## Terms'' @ [0x0A] @ js ''> ''"
  by (simp add: eval_defs char_defs)

text \<open>The outline of the empty string is not the empty sequence.\<close>

theorem empty_outline_counterexample: "chunkOutline [] \<noteq> []"
  by (simp add: chunkOutline_empty)


end
